theory Spec2Isabelle
  imports Main "HOL-Library.Log_Nat"
begin

section \<open>Python text primitives used by the scraper\<close>

text \<open>
  Addresses, identifiers, count texts and dates are lists of 8-bit characters read as
  ISO-8859-1 code points; the text block of an item is Unicode text, introduced with the
  hashtags. An exception of the source is a value of \<open>exn\<close>, and a computation that may
  raise returns \<open>exn + 'a\<close>.
\<close>

datatype exn =
    TimeoutException
  | NoSuchElementException
  | StaleElementReferenceException
  | WebDriverException
  | ValueError
  | AttributeError
  | OverflowError
  | OSError
  | UnicodeEncodeError

definition is_digit :: "char \<Rightarrow> bool" where
  "is_digit c = (let n = (of_char c :: nat) in 48 \<le> n \<and> n \<le> 57)"

definition digit_val :: "char \<Rightarrow> int" where
  "digit_val c = (of_char c :: int) - 48"

text \<open>\<open>str.isspace\<close> on the code points below 256.\<close>

definition is_space :: "char \<Rightarrow> bool" where
  "is_space c = (let n = (of_char c :: nat) in
     (9 \<le> n \<and> n \<le> 13) \<or> (28 \<le> n \<and> n \<le> 32) \<or> n = 133 \<or> n = 160)"

definition strip :: "string \<Rightarrow> string" where
  "strip s = rev (dropWhile is_space (rev (dropWhile is_space s)))"

text \<open>
  \<open>str.upper\<close>. The sharp s becomes \<open>SS\<close>. The upper-case forms of code points 181 and
  255 lie above 255; they are left as they are here, and neither is a digit, a sign,
  white space or one of the letters the count parser looks at.
\<close>

definition upper_char :: "char \<Rightarrow> string" where
  "upper_char c = (let n = (of_char c :: nat) in
     if 97 \<le> n \<and> n \<le> 122 then [char_of (n - 32)]
     else if n = 223 then ''SS''
     else if 224 \<le> n \<and> n \<le> 254 \<and> n \<noteq> 247 then [char_of (n - 32)]
     else [c])"

definition upper :: "string \<Rightarrow> string" where
  "upper s = concat (map upper_char s)"

text \<open>\<open>s.replace(c, new)\<close> for a one-character pattern, the only form the source uses.\<close>

definition replace_char :: "char \<Rightarrow> string \<Rightarrow> string \<Rightarrow> string" where
  "replace_char c new s = concat (map (\<lambda>x. if x = c then new else [x]) s)"

subsection \<open>Decimal digit groups\<close>

text \<open>
  A digit part of a Python numeric literal: digits, with single underscores allowed
  between two digits. \<open>digitpart\<close> reads the longest one at the front of the text and
  returns its digits and the rest.
\<close>

fun digitpart :: "string \<Rightarrow> (string \<times> string) option" where
  "digitpart [] = None"
| "digitpart (c # cs) =
     (if is_digit c then
        (case cs of
           u # d # rest \<Rightarrow>
             (if u = CHR ''_'' \<and> is_digit d then
                (case digitpart (d # rest) of
                   None \<Rightarrow> Some ([c], cs)
                 | Some (ds, r) \<Rightarrow> Some (c # ds, r))
              else if is_digit u then
                (case digitpart cs of
                   None \<Rightarrow> Some ([c], cs)
                 | Some (ds, r) \<Rightarrow> Some (c # ds, r))
              else Some ([c], cs))
         | [d] \<Rightarrow> (if is_digit d then Some ([c, d], []) else Some ([c], cs))
         | [] \<Rightarrow> Some ([c], []))
      else None)"

definition digits_val :: "string \<Rightarrow> int" where
  "digits_val ds = foldl (\<lambda>a c. 10 * a + digit_val c) 0 ds"

text \<open>An optional sign: the factor and the rest.\<close>

definition sign_of :: "string \<Rightarrow> int \<times> string" where
  "sign_of s = (case s of
       c # cs \<Rightarrow> (if c = CHR ''-'' then (-1, cs) else if c = CHR ''+'' then (1, cs) else (1, s))
     | [] \<Rightarrow> (1, s))"

subsection \<open>\<open>int(str)\<close>\<close>

text \<open>
  \<open>int(str)\<close> on a decimal literal of any length. CPython from 3.11 on refuses a
  literal of more than 4300 digits with \<open>ValueError\<close>, which the count parser turns into
  0; that limit is not part of this definition, and no count text of the properties below
  comes near it.
\<close>

definition py_int :: "string \<Rightarrow> exn + int" where
  "py_int s = (case sign_of (strip s) of (sg, r) \<Rightarrow>
     (case digitpart r of
        Some (ds, []) \<Rightarrow> Inr (sg * digits_val ds)
      | _ \<Rightarrow> Inl ValueError))"

subsection \<open>\<open>float(str)\<close> and binary64 arithmetic\<close>

datatype pyfloat = Finite rat | Infinity bool | NaN

definition pow2 :: "int \<Rightarrow> rat" where
  "pow2 e = (if 0 \<le> e then 2 ^ nat e else 1 / 2 ^ nat (- e))"

definition pow10 :: "int \<Rightarrow> rat" where
  "pow10 e = (if 0 \<le> e then 10 ^ nat e else 1 / 10 ^ nat (- e))"

text \<open>\<open>ilog2 a\<close> is the integer \<open>e\<close> with \<open>2^e \<le> a < 2^(e+1)\<close>, for a positive \<open>a\<close>.\<close>

definition ilog2 :: "rat \<Rightarrow> int" where
  "ilog2 a = (case quotient_of a of (p, q) \<Rightarrow>
     (let d = bitlen p - bitlen q in if pow2 d \<le> a then d else d - 1))"

definition round_half_even :: "rat \<Rightarrow> int" where
  "round_half_even r = (let f = \<lfloor>r\<rfloor>; d = r - of_int f in
     if d < 1 / 2 then f else if 1 / 2 < d then f + 1 else if even f then f else f + 1)"

text \<open>
  Rounding a rational to the nearest binary64 value, ties to even: 53 significant bits,
  least exponent \<open>-1074\<close>, overflow to an infinity at \<open>2^1024\<close>.
\<close>

definition round_double :: "rat \<Rightarrow> pyfloat" where
  "round_double q =
     (if q = 0 then Finite 0
      else (let a = \<bar>q\<bar>;
                e = max (ilog2 a - 52) (- 1074);
                v = of_int (round_half_even (a / pow2 e)) * pow2 e
            in if pow2 1024 \<le> v then Infinity (q < 0)
               else Finite (if q < 0 then - v else v)))"

definition float_mul :: "pyfloat \<Rightarrow> rat \<Rightarrow> pyfloat" where
  "float_mul x k = (case x of
       Finite q \<Rightarrow> round_double (q * k)
     | Infinity neg \<Rightarrow> Infinity neg
     | NaN \<Rightarrow> NaN)"

text \<open>\<open>int(x)\<close> for a float: truncation towards zero.\<close>

definition int_of_float :: "pyfloat \<Rightarrow> exn + int" where
  "int_of_float x = (case x of
       Finite q \<Rightarrow> Inr (if 0 \<le> q then \<lfloor>q\<rfloor> else \<lceil>q\<rceil>)
     | Infinity _ \<Rightarrow> Inl OverflowError
     | NaN \<Rightarrow> Inl ValueError)"

text \<open>The exponent part of a float literal, if the text is exactly one.\<close>

definition exponent_of :: "string \<Rightarrow> int option" where
  "exponent_of s = (case s of
       [] \<Rightarrow> Some 0
     | c # cs \<Rightarrow>
         (if c = CHR ''E'' \<or> c = CHR ''e'' then
            (case sign_of cs of (sg, r) \<Rightarrow>
               (case digitpart r of
                  Some (ds, []) \<Rightarrow> Some (sg * digits_val ds)
                | _ \<Rightarrow> None))
          else None))"

text \<open>
  The unsigned decimal literal \<open>digits [. [digits]] [exponent]\<close> or
  \<open>. digits [exponent]\<close>, as an exact rational.
\<close>

definition decimal_of :: "string \<Rightarrow> rat option" where
  "decimal_of s =
     (case digitpart s of
        Some (ip, r) \<Rightarrow>
          (case r of
             c # r' \<Rightarrow>
               (if c = CHR ''.'' then
                  (case digitpart r' of
                     Some (fp, r'') \<Rightarrow>
                       map_option (\<lambda>e. of_int (digits_val (ip @ fp)) * pow10 (e - int (length fp)))
                         (exponent_of r'')
                   | None \<Rightarrow> map_option (\<lambda>e. of_int (digits_val ip) * pow10 e) (exponent_of r'))
                else map_option (\<lambda>e. of_int (digits_val ip) * pow10 e) (exponent_of r))
           | [] \<Rightarrow> Some (of_int (digits_val ip)))
      | None \<Rightarrow>
          (case s of
             c # r' \<Rightarrow>
               (if c = CHR ''.'' then
                  (case digitpart r' of
                     Some (fp, r'') \<Rightarrow>
                       map_option (\<lambda>e. of_int (digits_val fp) * pow10 (e - int (length fp)))
                         (exponent_of r'')
                   | None \<Rightarrow> None)
                else None)
           | [] \<Rightarrow> None))"

definition py_float :: "string \<Rightarrow> exn + pyfloat" where
  "py_float s = (case sign_of (strip s) of (sg, r) \<Rightarrow>
     (let u = upper r in
      if u = ''INF'' \<or> u = ''INFINITY'' then Inr (Infinity (sg < 0))
      else if u = ''NAN'' then Inr NaN
      else (case decimal_of r of
              Some q \<Rightarrow> Inr (round_double (of_int sg * q))
            | None \<Rightarrow> Inl ValueError)))"

section \<open>The count parser\<close>

text \<open>
  \<open>_parse_count\<close> of \<open>twitter.py\<close>. Only the last branch is inside a
  \<open>try\<close>; an exception of \<open>float\<close> or of \<open>int\<close> on a float leaves the function.
\<close>

definition parse_count :: "string \<Rightarrow> exn + int" where
  "parse_count count_str =
     (if count_str = [] then Inr 0
      else (let s = upper (strip count_str) in
        if CHR ''K'' \<in> set s then
          (case py_float (replace_char CHR ''K'' [] s) of
             Inl e \<Rightarrow> Inl e
           | Inr x \<Rightarrow> int_of_float (float_mul x 1000))
        else if CHR ''M'' \<in> set s then
          (case py_float (replace_char CHR ''M'' [] s) of
             Inl e \<Rightarrow> Inl e
           | Inr x \<Rightarrow> int_of_float (float_mul x 1000000))
        else (case py_int s of
                Inl ValueError \<Rightarrow> Inr 0
              | Inl e \<Rightarrow> Inl e
              | Inr n \<Rightarrow> Inr n)))"

section \<open>Substring search\<close>

definition starts_with :: "string \<Rightarrow> string \<Rightarrow> bool" where
  "starts_with p s = (take (length p) s = p)"

text \<open>
  The first occurrence of a separator: the text before it and the text after it.
\<close>

fun partition_at :: "string \<Rightarrow> string \<Rightarrow> (string \<times> string) option" where
  "partition_at sep [] = None"
| "partition_at sep (c # cs) =
     (if starts_with sep (c # cs) then Some ([], drop (length sep) (c # cs))
      else map_option (\<lambda>(b, a). (c # b, a)) (partition_at sep cs))"

text \<open>\<open>sep in s\<close>, and \<open>s.split(sep)[0]\<close>.\<close>

definition contains :: "string \<Rightarrow> string \<Rightarrow> bool" where
  "contains sep s = (partition_at sep s \<noteq> None)"

definition before_sep :: "string \<Rightarrow> string \<Rightarrow> string" where
  "before_sep sep s = (case partition_at sep s of None \<Rightarrow> s | Some (b, _) \<Rightarrow> b)"

section \<open>Timestamps\<close>

text \<open>
  \<open>datetime.fromisoformat\<close> on the documented form
  \<open>YYYY-MM-DD[*HH[:MM[:SS[.fff[fff]]]][+HH:MM[:SS[.ffffff]]]]\<close>, with the range checks
  of the \<open>datetime\<close> constructor; \<open>None\<close> is its \<open>ValueError\<close>. The offset is checked and
  then plays no part, since \<open>strftime\<close> prints the fields as they were read. This is the
  grammar of CPython 3.7 to 3.10; from 3.11 on the function accepts more ISO 8601 forms (a
  fraction of any length, a basic date, a \<open>Z\<close> suffix), so a text refused here can be
  parsed there. The properties below use the parser only on a text of the documented form
  and through the fact that a refused text leaves the date empty.
\<close>

record datetime =
  year :: int
  month :: int
  day :: int
  hour :: int
  minute :: int
  second :: int

definition num2 :: "string \<Rightarrow> (int \<times> string) option" where
  "num2 s = (case s of
       a # b # r \<Rightarrow> (if is_digit a \<and> is_digit b then Some (10 * digit_val a + digit_val b, r) else None)
     | _ \<Rightarrow> None)"

definition parse_frac :: "string \<Rightarrow> int option" where
  "parse_frac r = (case r of
       [] \<Rightarrow> Some 0
     | c # f \<Rightarrow>
         (if c = CHR ''.'' \<and> (length f = 3 \<or> length f = 6) \<and> list_all is_digit f
          then Some (digits_val f * (if length f = 3 then 1000 else 1))
          else None))"

definition parse_hh_mm_ss_ff :: "string \<Rightarrow> (int \<times> int \<times> int \<times> int) option" where
  "parse_hh_mm_ss_ff s =
     (case num2 s of
        None \<Rightarrow> None
      | Some (h, r) \<Rightarrow>
          (case r of
             [] \<Rightarrow> Some (h, 0, 0, 0)
           | c # r1 \<Rightarrow>
               (if c \<noteq> CHR '':'' then None
                else (case num2 r1 of
                        None \<Rightarrow> None
                      | Some (m, r2) \<Rightarrow>
                          (case r2 of
                             [] \<Rightarrow> Some (h, m, 0, 0)
                           | c2 # r3 \<Rightarrow>
                               (if c2 \<noteq> CHR '':'' then None
                                else (case num2 r3 of
                                        None \<Rightarrow> None
                                      | Some (sec, r4) \<Rightarrow>
                                          map_option (\<lambda>f. (h, m, sec, f)) (parse_frac r4))))))))"

definition is_leap :: "int \<Rightarrow> bool" where
  "is_leap y = (y mod 4 = 0 \<and> (y mod 100 \<noteq> 0 \<or> y mod 400 = 0))"

definition days_in_month :: "int \<Rightarrow> int \<Rightarrow> int" where
  "days_in_month y m =
     (if m = 2 then (if is_leap y then 29 else 28)
      else if m = 4 \<or> m = 6 \<or> m = 9 \<or> m = 11 then 30 else 31)"

definition parse_date :: "string \<Rightarrow> (int \<times> int \<times> int) option" where
  "parse_date s =
     (if length s = 10 \<and> list_all is_digit (take 4 s) \<and> s ! 4 = CHR ''-'' \<and> s ! 7 = CHR ''-'' then
        (case (num2 (drop 5 s), num2 (drop 8 s)) of
           (Some (m, _), Some (d, _)) \<Rightarrow>
             (let y = digits_val (take 4 s) in
              if 1 \<le> y \<and> 1 \<le> m \<and> m \<le> 12 \<and> 1 \<le> d \<and> d \<le> days_in_month y m
              then Some (y, m, d) else None)
         | _ \<Rightarrow> None)
      else None)"

text \<open>The time part: the clock fields up to the first sign, then an optional offset.\<close>

definition parse_time :: "string \<Rightarrow> (int \<times> int \<times> int) option" where
  "parse_time t =
     (let clock = takeWhile (\<lambda>c. c \<noteq> CHR ''+'' \<and> c \<noteq> CHR ''-'') t;
          tz = dropWhile (\<lambda>c. c \<noteq> CHR ''+'' \<and> c \<noteq> CHR ''-'') t
      in case parse_hh_mm_ss_ff clock of
           None \<Rightarrow> None
         | Some (h, m, sec, f) \<Rightarrow>
             (if \<not> (h < 24 \<and> m < 60 \<and> sec < 60) then None
              else if tz = [] then Some (h, m, sec)
              else if length tz \<notin> {6, 9, 16} then None
              else (case parse_hh_mm_ss_ff (tl tz) of
                      None \<Rightarrow> None
                    | Some (zh, zm, zs, zf) \<Rightarrow>
                        (if ((zh * 60 + zm) * 60 + zs) * 1000000 + zf < 86400000000
                         then Some (h, m, sec) else None))))"

definition fromisoformat :: "string \<Rightarrow> datetime option" where
  "fromisoformat s =
     (case parse_date (take 10 s) of
        None \<Rightarrow> None
      | Some (y, mo, d) \<Rightarrow>
          (if length s = 10 then
             Some \<lparr>year = y, month = mo, day = d, hour = 0, minute = 0, second = 0\<rparr>
           else (case parse_time (drop 11 s) of
                   None \<Rightarrow> None
                 | Some (h, mi, sec) \<Rightarrow>
                     Some \<lparr>year = y, month = mo, day = d, hour = h, minute = mi, second = sec\<rparr>)))"

definition digit_char :: "int \<Rightarrow> char" where
  "digit_char n = char_of (48 + n mod 10)"

definition pad2 :: "int \<Rightarrow> string" where
  "pad2 n = [digit_char (n div 10), digit_char n]"

definition pad4 :: "int \<Rightarrow> string" where
  "pad4 n = [digit_char (n div 1000), digit_char (n div 100), digit_char (n div 10), digit_char n]"

text \<open>
  \<open>strftime("%Y-%m-%d %H:%M:%S")\<close>, the year printed with four digits. The C library
  decides the width of \<open>%Y\<close>: glibc prints a year below 1000 without leading zeros, so
  the two agree from the year 1000 on.
\<close>

definition strftime :: "datetime \<Rightarrow> string" where
  "strftime dt = pad4 (year dt) @ ''-'' @ pad2 (month dt) @ ''-'' @ pad2 (day dt) @ '' ''
     @ pad2 (hour dt) @ '':'' @ pad2 (minute dt) @ '':'' @ pad2 (second dt)"

text \<open>
  The timestamp block of the source. The argument is what the page holds: no
  \<open>time\<close> element (\<open>find_element\<close> raises \<open>NoSuchElementException\<close>, which the block
  catches), a \<open>time\<close> element with no \<open>datetime\<close> attribute (\<open>get_attribute\<close> returns
  \<open>None\<close>, and \<open>None.replace\<close> raises \<open>AttributeError\<close>, which the block does not catch),
  or the attribute's text (\<open>ValueError\<close> of the parser is caught).
\<close>

definition timestamp_of :: "string option option \<Rightarrow> exn + string option" where
  "timestamp_of time_elem = (case time_elem of
       None \<Rightarrow> Inr None
     | Some None \<Rightarrow> Inl AttributeError
     | Some (Some timestamp) \<Rightarrow>
         (case fromisoformat (replace_char CHR ''Z'' ''+00:00'' timestamp) of
            None \<Rightarrow> Inr None
          | Some dt \<Rightarrow> Inr (Some (strftime dt))))"

section \<open>Hashtags and mentions\<close>

text \<open>
  The text block of an item is Unicode text: a list of code points, each an integer from
  0 to 1114111. \<open>cps\<close> gives the code points of a literal.
\<close>

type_synonym utext = "int list"

definition cps :: "string \<Rightarrow> utext" where
  "cps s = map of_char s"

definition hash_sign :: int where
  "hash_sign = of_char CHR ''#''"

definition at_sign :: int where
  "at_sign = of_char CHR ''@''"

text \<open>
  \<open>re.findall\<close> for the patterns \<open>#(\w+)\<close> and \<open>@(\w+)\<close>: scan from the left; where
  the marker is followed by a word character, take the longest run of word characters
  and go on behind it. The class \<open>\w\<close> of \<open>re\<close> on text patterns is \<open>str.isalnum\<close> or
  the underscore; its table over all code points is not part of the source and is the
  parameter \<open>word_char\<close>.
\<close>

function findall_marker :: "(int \<Rightarrow> bool) \<Rightarrow> int \<Rightarrow> utext \<Rightarrow> utext list" where
  "findall_marker word_char m [] = []"
| "findall_marker word_char m (c # cs) =
     (if c = m \<and> takeWhile word_char cs \<noteq> []
      then takeWhile word_char cs # findall_marker word_char m (dropWhile word_char cs)
      else findall_marker word_char m cs)"
  by pat_completeness auto
termination
  by (relation "measure (\<lambda>(w, m, s). length s)") (auto simp: length_dropWhile_le less_Suc_eq_le)

text \<open>
  The reading of the specification's words: every place of the text where the marker
  stands before a word character gives one entry, the word that follows, in the order of
  the places.
\<close>

fun tails :: "'a list \<Rightarrow> 'a list list" where
  "tails [] = [[]]"
| "tails (x # xs) = (x # xs) # tails xs"

definition marked :: "(int \<Rightarrow> bool) \<Rightarrow> int \<Rightarrow> utext \<Rightarrow> bool" where
  "marked word_char m t = (case t of c # d # _ \<Rightarrow> c = m \<and> word_char d | _ \<Rightarrow> False)"

definition spec_matches :: "(int \<Rightarrow> bool) \<Rightarrow> int \<Rightarrow> utext \<Rightarrow> utext list" where
  "spec_matches word_char m s =
     map (\<lambda>t. takeWhile word_char (tl t)) (filter (marked word_char m) (tails s))"

text \<open>
  The class \<open>\w\<close> on the code points below 256, and no code point above: a sample
  value of the parameter.
\<close>

definition latin1_word :: "int \<Rightarrow> bool" where
  "latin1_word n =
     ((48 \<le> n \<and> n \<le> 57) \<or> (65 \<le> n \<and> n \<le> 90) \<or> n = 95 \<or> (97 \<le> n \<and> n \<le> 122)
      \<or> n = 170 \<or> n = 178 \<or> n = 179 \<or> n = 181 \<or> n = 185 \<or> n = 186
      \<or> (188 \<le> n \<and> n \<le> 190) \<or> (192 \<le> n \<and> n \<le> 214) \<or> (216 \<le> n \<and> n \<le> 246)
      \<or> (248 \<le> n \<and> n \<le> 255))"

section \<open>Items and extraction\<close>

text \<open>
  The dictionary the scraper builds for one item. Identifier, date and address are 8-bit
  text; the text block and the tags and mentions taken from it are Unicode text.
\<close>

record tweet =
  tweet_id :: string
  date :: "string option"
  content :: utext
  url :: string
  replyCount :: int
  retweetCount :: int
  likeCount :: int
  hashtags :: "utext list"
  mentionedUsers :: "utext list"
  has_media :: bool

text \<open>
  What the rendering engine answers for one \<open>article\<close> element: the \<open>href\<close> of each
  status link, the text block if there is one, the \<open>time\<close> element, the pairs of
  \<open>data-testid\<close> and text of the count indicators, and the number of media elements.
  An element that has left the page raises on its first use.
\<close>

record article =
  hrefs :: "string list"
  tweetText :: "utext option"
  time_elem :: "string option option"
  stats_elements :: "(string \<times> string) list"
  media_elements :: nat

datatype element = Stale | Present article

fun find_tweet_id :: "string list \<Rightarrow> string option" where
  "find_tweet_id [] = None"
| "find_tweet_id (href # links) =
     (case partition_at ''/status/'' href of
        Some (_, a) \<Rightarrow> Some (before_sep ''?'' (before_sep ''/status/'' a))
      | None \<Rightarrow> find_tweet_id links)"

fun scan_stats :: "(string \<times> string) list \<Rightarrow> int \<times> int \<times> int \<Rightarrow> exn + int \<times> int \<times> int" where
  "scan_stats [] st = Inr st"
| "scan_stats ((stat_id, txt) # rest) (r, t, l) =
     (if contains ''reply-count'' stat_id then
        (case parse_count txt of Inl e \<Rightarrow> Inl e | Inr n \<Rightarrow> scan_stats rest (n, t, l))
      else if contains ''retweet-count'' stat_id then
        (case parse_count txt of Inl e \<Rightarrow> Inl e | Inr n \<Rightarrow> scan_stats rest (r, n, l))
      else if contains ''like-count'' stat_id then
        (case parse_count txt of Inl e \<Rightarrow> Inl e | Inr n \<Rightarrow> scan_stats rest (r, t, n))
      else scan_stats rest (r, t, l))"

text \<open>
  The body of the \<open>for article in articles\<close> loop up to the \<open>append\<close>: \<open>Inl e\<close> is an
  exception that reaches the enclosing \<open>except Exception\<close>, \<open>Inr None\<close> an article that
  adds nothing (seen before, or with no identifier or an empty one, which Python takes as
  false), \<open>Inr (Some t)\<close> the item to append.
\<close>

definition extract_tweet ::
  "(int \<Rightarrow> bool) \<Rightarrow> string \<Rightarrow> tweet list \<Rightarrow> element \<Rightarrow> exn + tweet option" where
  "extract_tweet word_char username tweets_list el = (case el of
       Stale \<Rightarrow> Inl StaleElementReferenceException
     | Present a \<Rightarrow>
         (let tid = find_tweet_id (hrefs a);
              seen = (case tid of
                        None \<Rightarrow> False
                      | Some i \<Rightarrow> i \<noteq> [] \<and> i \<in> set (map tweet_id tweets_list))
          in if seen then Inr None
          else
            (let text = (case tweetText a of None \<Rightarrow> [] | Some t \<Rightarrow> t) in
             case timestamp_of (time_elem a) of
               Inl e \<Rightarrow> Inl e
             | Inr date_str \<Rightarrow>
                 (case scan_stats (stats_elements a) (0, 0, 0) of
                    Inl e \<Rightarrow> Inl e
                  | Inr (r, t, l) \<Rightarrow>
                      (case tid of
                         None \<Rightarrow> Inr None
                       | Some i \<Rightarrow>
                           (if i = [] then Inr None
                            else Inr (Some \<lparr>tweet_id = i, date = date_str, content = text,
                              url = ''https://twitter.com/'' @ username @ ''/status/'' @ i,
                              replyCount = r, retweetCount = t, likeCount = l,
                              hashtags =
                                (if text \<noteq> [] then findall_marker word_char hash_sign text else []),
                              mentionedUsers =
                                (if text \<noteq> [] then findall_marker word_char at_sign text else []),
                              has_media = (0 < media_elements a)\<rparr>)))))))"

section \<open>The collection loop\<close>

text \<open>
  The \<open>for\<close> loop over the articles of one pass: the list so far and the number of items
  added in this pass. An exception of an article is caught and the article skipped; the
  loop breaks as soon as the list has \<open>limit\<close> items.
\<close>

fun scan_articles ::
  "(int \<Rightarrow> bool) \<Rightarrow> string \<Rightarrow> int \<Rightarrow> element list \<Rightarrow> tweet list \<Rightarrow> nat \<Rightarrow> tweet list \<times> nat" where
  "scan_articles word_char username limit [] tweets_list new_tweets = (tweets_list, new_tweets)"
| "scan_articles word_char username limit (a # articles) tweets_list new_tweets =
     (case extract_tweet word_char username tweets_list a of
        Inl e \<Rightarrow> scan_articles word_char username limit articles tweets_list new_tweets
      | Inr None \<Rightarrow> scan_articles word_char username limit articles tweets_list new_tweets
      | Inr (Some t) \<Rightarrow>
          (if limit \<le> int (length (tweets_list @ [t])) then (tweets_list @ [t], Suc new_tweets)
           else scan_articles word_char username limit articles (tweets_list @ [t])
                  (Suc new_tweets)))"

text \<open>
  What the rendering engine answers during one pass of the \<open>while\<close> loop:
  \<open>find_elements\<close>, the scroll script, and the scroll extent read after the pause.
\<close>

record pass =
  found :: "exn + element list"
  scrolled :: "exn option"
  height :: "exn + int"

datatype step = Done "exn + tweet list" | Continue "tweet list" int

definition loop_body ::
  "(int \<Rightarrow> bool) \<Rightarrow> string \<Rightarrow> int \<Rightarrow> pass \<Rightarrow> tweet list \<Rightarrow> int \<Rightarrow> step" where
  "loop_body word_char username limit p tweets_list last_height = (case found p of
       Inl e \<Rightarrow> Done (Inl e)
     | Inr articles \<Rightarrow>
         (case scan_articles word_char username limit articles tweets_list 0 of
            (tweets_list', new_tweets) \<Rightarrow>
              (if limit \<le> int (length tweets_list') then Done (Inr tweets_list')
               else (case scrolled p of
                       Some e \<Rightarrow> Done (Inl e)
                     | None \<Rightarrow>
                         (case height p of
                            Inl e \<Rightarrow> Done (Inl e)
                          | Inr new_height \<Rightarrow>
                              (if new_height = last_height \<and> new_tweets = 0
                               then Done (Inr tweets_list')
                               else Continue tweets_list' new_height))))))"

text \<open>
  The \<open>while\<close> loop. The feed is the answer of the engine at each pass; a loop that
  never leaves has the value \<open>None\<close>.
\<close>

partial_function (option) collect ::
  "(int \<Rightarrow> bool) \<Rightarrow> (nat \<Rightarrow> pass) \<Rightarrow> string \<Rightarrow> int \<Rightarrow> nat \<Rightarrow> tweet list \<Rightarrow> int
     \<Rightarrow> (exn + tweet list) option" where
  "collect word_char feed username limit n tweets_list last_height =
     (if int (length tweets_list) < limit then
        (case loop_body word_char username limit (feed n) tweets_list last_height of
           Done r \<Rightarrow> Some r
         | Continue tweets_list' new_height \<Rightarrow>
             collect word_char feed username limit (Suc n) tweets_list' new_height)
      else Some (Inr tweets_list))"

declare collect.simps [code]

text \<open>
  The state of the loop at the head of pass \<open>k\<close>, when the loop gets that far from the
  empty list and the first scroll extent: the list and the last scroll extent. \<open>None\<close>
  says that the loop has left before. A pass is \<open>stuck\<close> when the loop goes on after it
  with the list as it was and with another scroll extent.
\<close>

primrec trajectory ::
  "(int \<Rightarrow> bool) \<Rightarrow> (nat \<Rightarrow> pass) \<Rightarrow> string \<Rightarrow> int \<Rightarrow> int \<Rightarrow> nat \<Rightarrow> (tweet list \<times> int) option" where
  "trajectory word_char feed username limit h0 0 = Some ([], h0)"
| "trajectory word_char feed username limit h0 (Suc k) =
     (case trajectory word_char feed username limit h0 k of
        None \<Rightarrow> None
      | Some (tweets_list, last_height) \<Rightarrow>
          (if int (length tweets_list) < limit then
             (case loop_body word_char username limit (feed k) tweets_list last_height of
                Done r \<Rightarrow> None
              | Continue tweets_list' new_height \<Rightarrow> Some (tweets_list', new_height))
           else None))"

definition stuck ::
  "(int \<Rightarrow> bool) \<Rightarrow> (nat \<Rightarrow> pass) \<Rightarrow> string \<Rightarrow> int \<Rightarrow> int \<Rightarrow> nat \<Rightarrow> bool" where
  "stuck word_char feed username limit h0 k =
     (case trajectory word_char feed username limit h0 k of
        None \<Rightarrow> False
      | Some (tweets_list, last_height) \<Rightarrow>
          (case trajectory word_char feed username limit h0 (Suc k) of
             None \<Rightarrow> False
           | Some (tweets_list', new_height) \<Rightarrow>
               tweets_list' = tweets_list \<and> new_height \<noteq> last_height))"

section \<open>The output file\<close>

text \<open>
  The text \<open>json.dump(tweets_list, f, ensure_ascii=False, indent=4)\<close> writes: the
  encoder of the \<open>json\<close> module with an indent, item separator \<open>,\<close> and key separator
  \<open>: \<close>. A string is written between quotes; the quote, the backslash and the control
  characters below 32 are escaped, every other code point is written as it is.
\<close>

definition hex_digit :: "int \<Rightarrow> int" where
  "hex_digit d = (if d < 10 then 48 + d else 87 + d)"

definition json_escape :: "int \<Rightarrow> utext" where
  "json_escape c =
     (if c = 34 then cps [CHR 0x5C, CHR 0x22]
      else if c = 92 then cps [CHR 0x5C, CHR 0x5C]
      else if c = 8 then cps [CHR 0x5C, CHR ''b'']
      else if c = 12 then cps [CHR 0x5C, CHR ''f'']
      else if c = 10 then cps [CHR 0x5C, CHR ''n'']
      else if c = 13 then cps [CHR 0x5C, CHR ''r'']
      else if c = 9 then cps [CHR 0x5C, CHR ''t'']
      else if 0 \<le> c \<and> c < 32 then
        cps [CHR 0x5C, CHR ''u'', CHR ''0'', CHR ''0''] @ [hex_digit (c div 16), hex_digit (c mod 16)]
      else [c])"

definition json_string :: "utext \<Rightarrow> utext" where
  "json_string s = 34 # concat (map json_escape s) @ [34]"

function decimal :: "int \<Rightarrow> utext" where
  "decimal n = (if n < 10 then [48 + n] else decimal (n div 10) @ [48 + n mod 10])"
  by pat_completeness auto
termination
  by (relation "measure nat") auto

definition json_int :: "int \<Rightarrow> utext" where
  "json_int n = (if n < 0 then 45 # decimal (- n) else decimal n)"

definition newline_indent :: "nat \<Rightarrow> nat \<Rightarrow> utext" where
  "newline_indent indent level = 10 # replicate (indent * level) 32"

fun join_with :: "'a list \<Rightarrow> 'a list list \<Rightarrow> 'a list" where
  "join_with sep [] = []"
| "join_with sep [x] = x"
| "join_with sep (x # y # ys) = x @ sep @ join_with sep (y # ys)"

text \<open>
  A list and a dictionary whose members are already written, as the encoder lays them
  out at a nesting level: each member on a line of its own, one level deeper.
\<close>

definition json_array :: "nat \<Rightarrow> nat \<Rightarrow> utext list \<Rightarrow> utext" where
  "json_array indent level items =
     (if items = [] then cps ''[]''
      else cps ''['' @ newline_indent indent (Suc level)
        @ join_with (cps '','' @ newline_indent indent (Suc level)) items
        @ newline_indent indent level @ cps '']'')"

definition json_object :: "nat \<Rightarrow> nat \<Rightarrow> (string \<times> utext) list \<Rightarrow> utext" where
  "json_object indent level members =
     (if members = [] then cps ''{}''
      else cps ''{'' @ newline_indent indent (Suc level)
        @ join_with (cps '','' @ newline_indent indent (Suc level))
            (map (\<lambda>(k, v). json_string (cps k) @ cps '': '' @ v) members)
        @ newline_indent indent level @ cps ''}'')"

definition json_tweet :: "nat \<Rightarrow> tweet \<Rightarrow> utext" where
  "json_tweet indent t = json_object indent 1
     [(''id'', json_string (cps (tweet_id t))),
      (''date'', (case date t of None \<Rightarrow> cps ''null'' | Some d \<Rightarrow> json_string (cps d))),
      (''content'', json_string (content t)),
      (''url'', json_string (cps (url t))),
      (''replyCount'', json_int (replyCount t)),
      (''retweetCount'', json_int (retweetCount t)),
      (''likeCount'', json_int (likeCount t)),
      (''hashtags'', json_array indent 2 (map json_string (hashtags t))),
      (''mentionedUsers'', json_array indent 2 (map json_string (mentionedUsers t))),
      (''has_media'', (if has_media t then cps ''true'' else cps ''false''))]"

definition json_dumps :: "nat \<Rightarrow> tweet list \<Rightarrow> utext" where
  "json_dumps indent tweets_list = json_array indent 0 (map (json_tweet indent) tweets_list)"

text \<open>
  The bytes the file holds under the encoding \<open>utf-8\<close>. A surrogate, or an integer that
  is no code point, has no encoding: the write raises \<open>UnicodeEncodeError\<close>.
\<close>

definition utf8_char :: "int \<Rightarrow> int list option" where
  "utf8_char c =
     (if c < 0 then None
      else if c < 128 then Some [c]
      else if c < 2048 then Some [192 + c div 64, 128 + c mod 64]
      else if c < 65536 then
        (if 55296 \<le> c \<and> c \<le> 57343 then None
         else Some [224 + c div 4096, 128 + c div 64 mod 64, 128 + c mod 64])
      else if c < 1114112 then
        Some [240 + c div 262144, 128 + c div 4096 mod 64, 128 + c div 64 mod 64, 128 + c mod 64]
      else None)"

fun utf8_encode :: "utext \<Rightarrow> int list option" where
  "utf8_encode [] = Some []"
| "utf8_encode (c # cs) =
     (case utf8_char c of
        None \<Rightarrow> None
      | Some bs \<Rightarrow> map_option (\<lambda>r. bs @ r) (utf8_encode cs))"


section \<open>The whole run\<close>

text \<open>
  The calls a run makes on the outside world, in order, each with the arguments the
  source gives it: \<open>Open_file\<close> has the path, the mode and the encoding, \<open>Json_dump\<close> the
  list, \<open>ensure_ascii\<close> and the indent. An event stands for the call, whether it returns
  or raises. \<open>driver.quit()\<close> is taken to return normally.
\<close>

datatype event =
    Chrome bool
  | Get string
  | Wait_until
  | Quit
  | Open_file string string string
  | Json_dump "tweet list" bool nat

text \<open>
  What the outside world answers in a run: whether the constructor, the navigation and
  the initial wait raise, the first scroll extent, the feed, whether opening the output
  file raises, and whether writing the encoded text to it or closing it raises.
\<close>

record session =
  chrome :: "exn option"
  get :: "exn option"
  wait :: "exn option"
  first_height :: "exn + int"
  feed :: "nat \<Rightarrow> pass"
  open_file :: "exn option"
  write_file :: "exn option"

definition output_path :: "string \<Rightarrow> string option \<Rightarrow> string" where
  "output_path username output_file = (case output_file of
       None \<Rightarrow> username @ ''_tweets.json''
     | Some f \<Rightarrow> (if f = [] then username @ ''_tweets.json'' else f))"

text \<open>
  The end of the function, from \<open>driver.quit()\<close> on: the session is released, the file
  is opened and the list is dumped into it. Each of the two calls can raise, and what it
  raises leaves the function.
\<close>

definition save_and_return ::
  "session \<Rightarrow> string \<Rightarrow> event list \<Rightarrow> tweet list \<Rightarrow> (exn + tweet list) \<times> event list" where
  "save_and_return env out trace tweets_list =
     (case open_file env of
        Some e \<Rightarrow> (Inl e, trace @ [Quit, Open_file out ''w'' ''utf-8''])
      | None \<Rightarrow>
          (case utf8_encode (json_dumps 4 tweets_list) of
             None \<Rightarrow>
               (Inl UnicodeEncodeError,
                trace @ [Quit, Open_file out ''w'' ''utf-8'', Json_dump tweets_list False 4])
           | Some bytes \<Rightarrow>
               (case write_file env of
                  Some e \<Rightarrow>
                    (Inl e,
                     trace @ [Quit, Open_file out ''w'' ''utf-8'', Json_dump tweets_list False 4])
                | None \<Rightarrow>
                    (Inr tweets_list,
                     trace @ [Quit, Open_file out ''w'' ''utf-8'',
                              Json_dump tweets_list False 4]))))"

definition scrape_user_tweets ::
  "(int \<Rightarrow> bool) \<Rightarrow> session \<Rightarrow> string \<Rightarrow> int \<Rightarrow> string option \<Rightarrow> bool
     \<Rightarrow> ((exn + tweet list) \<times> event list) option" where
  "scrape_user_tweets word_char env username limit output_file headless =
     (let out = output_path username output_file;
          opened = [Chrome headless, Get (''https://twitter.com/'' @ username)]
      in case chrome env of
           Some e \<Rightarrow> Some (Inl e, [Chrome headless])
         | None \<Rightarrow>
             (case get env of
                Some e \<Rightarrow> Some (Inl e, opened)
              | None \<Rightarrow>
                  (case wait env of
                     Some e \<Rightarrow>
                       (if e = TimeoutException then Some (Inr [], opened @ [Wait_until, Quit])
                        else Some (Inl e, opened @ [Wait_until]))
                   | None \<Rightarrow>
                       (case first_height env of
                          Inl e \<Rightarrow> Some (Inl e, opened @ [Wait_until])
                        | Inr last_height \<Rightarrow>
                            (case collect word_char (feed env) username limit 0 [] last_height of
                               None \<Rightarrow> None
                             | Some (Inl e) \<Rightarrow> Some (Inl e, opened @ [Wait_until])
                             | Some (Inr tweets_list) \<Rightarrow>
                                 Some (save_and_return env out (opened @ [Wait_until])
                                         tweets_list))))))"

section \<open>Sample pages and sessions\<close>

text \<open>
  A rendered item with a status link and a text block and nothing else, the record the
  scraper builds from it for the user \<open>u\<close>, and the same item with a \<open>time\<close> element
  that carries no \<open>datetime\<close> attribute.
\<close>

definition sample_article :: article where
  "sample_article = \<lparr>hrefs = [''/status/1''],
     tweetText = Some (cps ''Loving #rust and #go, cc @alice''),
     time_elem = None, stats_elements = [], media_elements = 0\<rparr>"

definition sample_tweet :: tweet where
  "sample_tweet = \<lparr>tweet_id = ''1'', date = None,
     content = cps ''Loving #rust and #go, cc @alice'',
     url = ''https://twitter.com/u/status/1'',
     replyCount = 0, retweetCount = 0, likeCount = 0,
     hashtags = [cps ''rust'', cps ''go''], mentionedUsers = [cps ''alice''],
     has_media = False\<rparr>"

definition undated_article :: article where
  "undated_article = sample_article\<lparr>time_elem := Some None\<rparr>"

text \<open>
  A feed that shows the sample item twice at every pass and never changes its scroll
  extent, an empty feed whose scroll extent grows at every pass, and a feed on which
  \<open>find_elements\<close> raises.
\<close>

definition steady_feed :: "nat \<Rightarrow> pass" where
  "steady_feed n = \<lparr>found = Inr [Present sample_article, Present sample_article],
     scrolled = None, height = Inr 100\<rparr>"


definition broken_feed :: "nat \<Rightarrow> pass" where
  "broken_feed n = \<lparr>found = Inl WebDriverException, scrolled = None, height = Inr 100\<rparr>"

definition steady_session :: session where
  "steady_session = \<lparr>chrome = None, get = None, wait = None, first_height = Inr 100,
     feed = steady_feed, open_file = None, write_file = None\<rparr>"

definition timeout_session :: session where
  "timeout_session = steady_session\<lparr>wait := Some TimeoutException\<rparr>"

definition crash_session :: session where
  "crash_session = steady_session\<lparr>get := Some WebDriverException\<rparr>"

definition broken_session :: session where
  "broken_session = steady_session\<lparr>feed := broken_feed\<rparr>"

text \<open>
  A word class that holds the CJK unified ideographs besides the code points below 256, as
  \<open>\w\<close> does, and the text of lines joined by the line feed.
\<close>

definition cjk_word :: "int \<Rightarrow> bool" where
  "cjk_word n = (latin1_word n \<or> (19968 \<le> n \<and> n \<le> 40959))"

definition lines_text :: "string list \<Rightarrow> utext" where
  "lines_text ls = join_with [10] (map cps ls)"

section \<open>Properties of the count parser\<close>

text \<open>The five sample inputs of the count-parsing rule.\<close>

lemma parse_count_samples:
  "parse_count ''0'' = Inr 0"
  "parse_count ''1.2K'' = Inr 1200"
  "parse_count ''3M'' = Inr 3000000"
  "parse_count [] = Inr 0"
  "parse_count ''abc'' = Inr 0"
  by code_simp+

text \<open>
  Claim C7. The count parser is to yield 0 on every parse failure and never to raise.
  On the text \<open>K\<close> the source reaches \<open>float('')\<close> outside any \<open>try\<close>, and the
  \<open>ValueError\<close> leaves the function: the rule holds on the plain-integer branch only.
\<close>

theorem parse_count_K_raises: "parse_count ''K'' = Inl ValueError"
  by code_simp

section \<open>The timestamp block\<close>

lemma timestamp_of_sample:
  "timestamp_of (Some (Some ''2023-01-15T12:34:56.000Z'')) = Inr (Some ''2023-01-15 12:34:56'')"
  "timestamp_of (Some (Some ''yesterday'')) = Inr None"
  "timestamp_of None = Inr None"
  by code_simp+

lemma timestamp_of_tolerant:
  "time_elem a \<noteq> Some None \<Longrightarrow> \<exists>d. timestamp_of (time_elem a) = Inr d"
  by (auto simp: timestamp_of_def split: option.splits)

section \<open>Invariants of the collection loop\<close>

lemma extract_tweet_fresh:
  "extract_tweet w username tweets_list el = Inr (Some t) \<Longrightarrow>
     tweet_id t \<noteq> [] \<and> tweet_id t \<notin> set (map tweet_id tweets_list)"
  by (auto simp: extract_tweet_def Let_def
      split: element.splits option.splits sum.splits if_splits prod.splits)

lemma scan_articles_length:
  "int (length tweets_list) < limit \<Longrightarrow>
     int (length (fst (scan_articles w username limit articles tweets_list k))) \<le> limit"
proof (induction articles arbitrary: tweets_list k)
  case Nil
  then show ?case by simp
next
  case (Cons a articles)
  show ?case
  proof (cases "extract_tweet w username tweets_list a")
    case (Inl e)
    with Cons show ?thesis by simp
  next
    case (Inr r)
    show ?thesis
    proof (cases r)
      case None
      with Inr Cons show ?thesis by simp
    next
      case (Some t)
      show ?thesis
      proof (cases "limit \<le> int (length (tweets_list @ [t]))")
        case True
        with Inr Some Cons.prems show ?thesis by simp
      next
        case False
        then have "int (length (tweets_list @ [t])) < limit" by simp
        from Cons.IH [OF this] Inr Some False show ?thesis by simp
      qed
    qed
  qed
qed

lemma scan_articles_distinct:
  "distinct (map tweet_id tweets_list) \<Longrightarrow>
     distinct (map tweet_id (fst (scan_articles w username limit articles tweets_list k)))"
proof (induction articles arbitrary: tweets_list k)
  case Nil
  then show ?case by simp
next
  case (Cons a articles)
  show ?case
  proof (cases "extract_tweet w username tweets_list a")
    case (Inl e)
    with Cons show ?thesis by simp
  next
    case (Inr r)
    show ?thesis
    proof (cases r)
      case None
      with Inr Cons show ?thesis by simp
    next
      case (Some t)
      from extract_tweet_fresh Inr Some have "tweet_id t \<notin> set (map tweet_id tweets_list)"
        by blast
      with Cons.prems have d: "distinct (map tweet_id (tweets_list @ [t]))" by simp
      from Cons.IH [OF d] d Inr Some show ?thesis by simp
    qed
  qed
qed

text \<open>A scan only appends, and counts what it appends.\<close>

lemma scan_articles_append:
  "\<exists>xs. fst (scan_articles w u l arts ts k) = ts @ xs \<and>
        snd (scan_articles w u l arts ts k) = k + length xs"
proof (induction arts arbitrary: ts k)
  case Nil
  show ?case by simp
next
  case (Cons a arts)
  show ?case
  proof (cases "extract_tweet w u ts a")
    case (Inl e)
    with Cons show ?thesis by simp
  next
    case (Inr r)
    show ?thesis
    proof (cases r)
      case None
      with Inr Cons show ?thesis by simp
    next
      case (Some t)
      show ?thesis
      proof (cases "l \<le> int (length (ts @ [t]))")
        case True
        with Inr Some show ?thesis by simp
      next
        case False
        from Cons [of "ts @ [t]" "Suc k"] obtain xs where
          "fst (scan_articles w u l arts (ts @ [t]) (Suc k)) = (ts @ [t]) @ xs"
          "snd (scan_articles w u l arts (ts @ [t]) (Suc k)) = Suc k + length xs" by blast
        with Inr Some False have
          "fst (scan_articles w u l (a # arts) ts k) = ts @ (t # xs) \<and>
           snd (scan_articles w u l (a # arts) ts k) = k + length (t # xs)" by simp
        then show ?thesis by blast
      qed
    qed
  qed
qed

lemma loop_body_Done_scan:
  "loop_body w username limit p tweets_list h = Done (Inr r) \<Longrightarrow>
     \<exists>articles. found p = Inr articles \<and>
       r = fst (scan_articles w username limit articles tweets_list 0)"
  by (auto simp: loop_body_def split: sum.splits prod.splits if_splits option.splits)

lemma loop_body_Continue_scan:
  "loop_body w username limit p tweets_list h = Continue tl' h' \<Longrightarrow>
     \<exists>articles. found p = Inr articles \<and>
       tl' = fst (scan_articles w username limit articles tweets_list 0)
       \<and> int (length tl') < limit \<and> height p = Inr h'
       \<and> (h' \<noteq> h \<or> snd (scan_articles w username limit articles tweets_list 0) \<noteq> 0)"
  by (auto simp: loop_body_def split: sum.splits prod.splits if_splits option.splits)

lemma loop_body_Continue_grows:
  assumes "loop_body w u limit p ts h = Continue ts' h'"
  shows "length ts \<le> length ts' \<and> (length ts' = length ts \<longrightarrow> ts' = ts \<and> h' \<noteq> h)"
proof -
  from loop_body_Continue_scan [OF assms] obtain arts where
    ts': "ts' = fst (scan_articles w u limit arts ts 0)" and
    new: "h' \<noteq> h \<or> snd (scan_articles w u limit arts ts 0) \<noteq> 0" by blast
  from scan_articles_append [of w u limit arts ts 0] obtain xs where
    "fst (scan_articles w u limit arts ts 0) = ts @ xs"
    "snd (scan_articles w u limit arts ts 0) = 0 + length xs" by blast
  with ts' new show ?thesis by auto
qed



lemma collect_invariant:
  assumes run: "collect w fd u limit n tl0 h = Some (Inr r)"
    and init: "I tl0"
    and step: "\<And>ts arts. I ts \<Longrightarrow> int (length ts) < limit \<Longrightarrow>
                 I (fst (scan_articles w u limit arts ts 0))"
  shows "I r"
proof -
  define P where "P = (\<lambda>(w' :: int \<Rightarrow> bool) (fd' :: nat \<Rightarrow> pass) u' l' (n' :: nat) ts (h' :: int)
              (y' :: exn + tweet list).
              w' = w \<longrightarrow> u' = u \<longrightarrow> l' = limit \<longrightarrow> I ts \<longrightarrow> (\<forall>r'. y' = Inr r' \<longrightarrow> I r'))"
  have "P w fd u limit n tl0 h (Inr r)"
  proof (rule collect.raw_induct [where P = P, OF _ run], goal_cases)
    case (1 c w' fd' u' l' n' ts h' y')
    show ?case
      unfolding P_def
    proof (intro impI allI)
      fix r'
      assume eqs: "w' = w" "u' = u" "l' = limit" and inv: "I ts" and y: "y' = Inr r'"
      show "I r'"
      proof (cases "int (length ts) < l'")
        case False
        with 1(2) y inv show ?thesis by simp
      next
        case True
        show ?thesis
        proof (cases "loop_body w' u' l' (fd' n') ts h'")
          case (Done res)
          with 1(2) True y have "res = Inr r'" by simp
          with Done loop_body_Done_scan obtain arts where
            "r' = fst (scan_articles w' u' l' arts ts 0)" by blast
          with step [OF inv] True eqs show ?thesis by simp
        next
          case (Continue ts' h'')
          with 1(2) True have c: "c w' fd' u' l' (Suc n') ts' h'' = Some y'" by simp
          from loop_body_Continue_scan [OF Continue] obtain arts where
            "ts' = fst (scan_articles w' u' l' arts ts 0)" by blast
          with step [OF inv] True eqs have "I ts'" by simp
          with 1(1) [OF c] eqs y show ?thesis by (simp add: P_def)
        qed
      qed
    qed
  qed
  with init show ?thesis by (simp add: P_def)
qed

lemma collect_length:
  assumes "collect w fd u limit n tl0 h = Some (Inr r)" and "int (length tl0) \<le> max 0 limit"
  shows "int (length r) \<le> max 0 limit"
proof (rule collect_invariant [OF assms(1), where I = "\<lambda>ts. int (length ts) \<le> max 0 limit"])
  show "int (length tl0) \<le> max 0 limit" by (rule assms(2))
next
  fix ts :: "tweet list" and arts
  assume "int (length ts) < limit"
  from scan_articles_length [OF this, of w u arts 0]
  show "int (length (fst (scan_articles w u limit arts ts 0))) \<le> max 0 limit" by simp
qed

lemma collect_distinct:
  assumes "collect w fd u limit n tl0 h = Some (Inr r)" and "distinct (map tweet_id tl0)"
  shows "distinct (map tweet_id r)"
  by (rule collect_invariant [OF assms(1), where I = "\<lambda>ts. distinct (map tweet_id ts)"])
     (simp_all add: assms(2) scan_articles_distinct)

section \<open>Hashtag extraction against its specification\<close>

lemma marked_Cons: "marked w m (c # cs) = (c = m \<and> takeWhile w cs \<noteq> [])"
  by (cases cs) (simp_all add: marked_def)

lemma spec_matches_Cons:
  "spec_matches w m (c # cs) =
     (if c = m \<and> takeWhile w cs \<noteq> [] then [takeWhile w cs] else []) @ spec_matches w m cs"
  by (simp add: spec_matches_def marked_Cons)

lemma spec_matches_dropWhile:
  "\<not> w m \<Longrightarrow> spec_matches w m (dropWhile w cs) = spec_matches w m cs"
proof (induction cs)
  case Nil
  show ?case by simp
next
  case (Cons c cs)
  show ?case
  proof (cases "w c")
    case True
    with Cons.prems have "c \<noteq> m" by auto
    with True Cons show ?thesis by (simp add: spec_matches_Cons)
  next
    case False
    then show ?thesis by simp
  qed
qed

lemma findall_marker_spec:
  "\<not> w m \<Longrightarrow> findall_marker w m s = spec_matches w m s"
proof (induction w m s rule: findall_marker.induct)
  case (1 w m)
  show ?case by (simp add: spec_matches_def marked_def)
next
  case (2 w m c cs)
  show ?case
  proof (cases "c = m \<and> takeWhile w cs \<noteq> []")
    case True
    with 2 have "findall_marker w m (dropWhile w cs) = spec_matches w m (dropWhile w cs)"
      by blast
    with True 2(3) show ?thesis
      by (simp add: spec_matches_Cons spec_matches_dropWhile)
  next
    case False
    with 2 have "findall_marker w m cs = spec_matches w m cs" by blast
    with False show ?thesis by (auto simp add: spec_matches_Cons)
  qed
qed

text \<open>The scan looks at the word class on the code points of the text only.\<close>

lemma findall_marker_cong:
  "(\<And>c. c \<in> set s \<Longrightarrow> w c = w' c) \<Longrightarrow> findall_marker w m s = findall_marker w' m s"
proof (induction w m s rule: findall_marker.induct)
  case (1 w m)
  show ?case by simp
next
  case (2 w m c cs)
  have tw: "takeWhile w cs = takeWhile w' cs"
    by (rule takeWhile_cong) (simp_all add: 2(3))
  have dw: "dropWhile w cs = dropWhile w' cs"
    by (rule dropWhile_cong) (simp_all add: 2(3))
  show ?case
  proof (cases "c = m \<and> takeWhile w cs \<noteq> []")
    case True
    have "findall_marker w m (dropWhile w cs) = findall_marker w' m (dropWhile w cs)"
    proof (rule 2(1))
      show "c = m \<and> takeWhile w cs \<noteq> []" by (rule True)
    next
      fix d assume "d \<in> set (dropWhile w cs)"
      then have "d \<in> set cs" by (rule set_dropWhileD)
      then show "w d = w' d" by (simp add: 2(3))
    qed
    with True tw dw show ?thesis by simp
  next
    case False
    have "findall_marker w m cs = findall_marker w' m cs"
      by (rule 2(2)) (simp_all add: False 2(3))
    with False tw show ?thesis by auto
  qed
qed

lemma of_char_range: "0 \<le> (of_char c :: int) \<and> (of_char c :: int) < 256"
proof -
  have "0 \<le> (of_char c :: int) mod 256" by (rule pos_mod_sign) simp
  moreover have "(of_char c :: int) mod 256 < 256" by (rule pos_mod_bound) simp
  ultimately show ?thesis by (simp only: of_char_mod_256)
qed

lemma cps_below_256: "c \<in> set (cps s) \<Longrightarrow> 0 \<le> c \<and> c < 256"
  using of_char_range by (auto simp: cps_def)

lemma findall_marker_latin1:
  assumes "\<forall>n. 0 \<le> n \<and> n < 256 \<longrightarrow> w n = latin1_word n"
  shows "findall_marker w m (cps s) = findall_marker latin1_word m (cps s)"
  by (rule findall_marker_cong) (use assms cps_below_256 in blast)

lemma extract_tweet_tags:
  "extract_tweet w username tweets_list el = Inr (Some t) \<Longrightarrow>
     hashtags t = findall_marker w hash_sign (content t) \<and>
     mentionedUsers t = findall_marker w at_sign (content t)"
  by (auto simp: extract_tweet_def Let_def
      split: element.splits option.splits sum.splits if_splits prod.splits)

section \<open>Termination of the collection loop\<close>

lemma trajectory_Suc_Some:
  "trajectory w fd u limit h0 (Suc k) = Some (ts', h') \<longleftrightarrow>
     (\<exists>ts h. trajectory w fd u limit h0 k = Some (ts, h) \<and> int (length ts) < limit \<and>
        loop_body w u limit (fd k) ts h = Continue ts' h')"
  by (auto split: option.splits if_splits step.splits)

lemma trajectory_None_Suc:
  "trajectory w fd u limit h0 k = None \<Longrightarrow> trajectory w fd u limit h0 (Suc k) = None"
  by simp

lemma trajectory_None_mono:
  "k \<le> k' \<Longrightarrow> trajectory w fd u limit h0 k = None \<Longrightarrow> trajectory w fd u limit h0 k' = None"
  by (induction k' rule: dec_induct) (simp_all only: trajectory_None_Suc)

text \<open>The loop from the start is the loop from any state it reaches.\<close>

lemma collect_trajectory:
  "trajectory w fd u limit h0 k = Some (ts, h) \<Longrightarrow>
     collect w fd u limit 0 [] h0 = collect w fd u limit k ts h"
proof (induction k arbitrary: ts h)
  case 0
  then show ?case by simp
next
  case (Suc k)
  from Suc.prems obtain ts0 h1 where
    t: "trajectory w fd u limit h0 k = Some (ts0, h1)" and
    lt: "int (length ts0) < limit" and
    lb: "loop_body w u limit (fd k) ts0 h1 = Continue ts h"
    unfolding trajectory_Suc_Some by blast
  have "collect w fd u limit k ts0 h1 = collect w fd u limit (Suc k) ts h"
    by (subst collect.simps) (simp add: lt lb)
  with Suc.IH [OF t] show ?case by simp
qed

lemma collect_leaves:
  assumes "trajectory w fd u limit h0 k = Some (ts, h)"
    and "trajectory w fd u limit h0 (Suc k) = None"
  shows "\<exists>r. collect w fd u limit k ts h = Some r"
proof (cases "int (length ts) < limit")
  case False
  then show ?thesis by (subst collect.simps) simp
next
  case True
  show ?thesis
  proof (cases "loop_body w u limit (fd k) ts h")
    case (Done res)
    with True show ?thesis by (subst collect.simps) simp
  next
    case (Continue ts' h')
    with assms True show ?thesis by simp
  qed
qed

lemma collect_returns_if_left:
  assumes "trajectory w fd u limit h0 k = None"
  shows "\<exists>r. collect w fd u limit 0 [] h0 = Some r"
  using assms
proof (induction k)
  case 0
  then show ?case by simp
next
  case (Suc k)
  show ?case
  proof (cases "trajectory w fd u limit h0 k")
    case None
    then show ?thesis by (rule Suc.IH)
  next
    case (Some s)
    obtain ts h where s: "s = (ts, h)" by (cases s)
    from collect_leaves [of w fd u limit h0 k ts h] Some s Suc.prems
    obtain r where "collect w fd u limit k ts h = Some r" by blast
    with collect_trajectory [of w fd u limit h0 k ts h] Some s show ?thesis by simp
  qed
qed

lemma collect_diverges_if_never_left:
  assumes all: "\<forall>k. trajectory w fd u limit h0 k \<noteq> None"
  shows "collect w fd u limit 0 [] h0 = None"
proof -
  define P where "P = (\<lambda>(w' :: int \<Rightarrow> bool) (fd' :: nat \<Rightarrow> pass) (u' :: string) (l :: int)
      (k :: nat) (ts :: tweet list) (h :: int) (y :: exn + tweet list).
      \<not> (w' = w \<and> fd' = fd \<and> u' = u \<and> l = limit \<and> trajectory w fd u limit h0 k = Some (ts, h)))"
  have "P w fd u limit 0 [] h0 y" if run: "collect w fd u limit 0 [] h0 = Some y" for y
  proof (rule collect.raw_induct [where P = P, OF _ run], goal_cases)
    case (1 c w' fd' u' l k ts h y')
    show ?case
      unfolding P_def
    proof
      assume a: "w' = w \<and> fd' = fd \<and> u' = u \<and> l = limit \<and>
        trajectory w fd u limit h0 k = Some (ts, h)"
      from all have "trajectory w fd u limit h0 (Suc k) \<noteq> None" by blast
      then obtain ts' h' where "trajectory w fd u limit h0 (Suc k) = Some (ts', h')" by auto
      with a have lt: "int (length ts) < limit"
        and lb: "loop_body w u limit (fd k) ts h = Continue ts' h'"
        and t: "trajectory w fd u limit h0 (Suc k) = Some (ts', h')"
        unfolding trajectory_Suc_Some by auto
      from 1(2) a lt lb have "c w fd u limit (Suc k) ts' h' = Some y'" by simp
      from 1(1) [OF this] t show False by (simp add: P_def)
    qed
  qed
  then have "collect w fd u limit 0 [] h0 \<noteq> Some y" for y
    by (auto simp: P_def)
  then show ?thesis by (cases "collect w fd u limit 0 [] h0") auto
qed

lemma collect_None_iff_never_left:
  "collect w fd u limit 0 [] h0 = None \<longleftrightarrow> (\<forall>k. trajectory w fd u limit h0 k \<noteq> None)"
proof
  assume n: "collect w fd u limit 0 [] h0 = None"
  show "\<forall>k. trajectory w fd u limit h0 k \<noteq> None"
  proof (rule allI, rule notI)
    fix k
    assume "trajectory w fd u limit h0 k = None"
    from collect_returns_if_left [OF this] n show False by simp
  qed
next
  assume "\<forall>k. trajectory w fd u limit h0 k \<noteq> None"
  then show "collect w fd u limit 0 [] h0 = None" by (rule collect_diverges_if_never_left)
qed

text \<open>A sequence of numbers that never falls and stays below a bound is constant in the end.\<close>

lemma bounded_mono_settles:
  fixes f :: "nat \<Rightarrow> nat"
  assumes mono: "\<forall>k. f k \<le> f (Suc k)" and bound: "\<forall>k. f k \<le> B"
  shows "\<exists>K. \<forall>k\<ge>K. f k = f K"
proof -
  have le: "f i \<le> f j" if "i \<le> j" for i j
    using that mono by (induction j rule: dec_induct) (auto intro: order_trans)
  have "\<exists>K\<ge>m. \<forall>k\<ge>K. f k = f K" for m
  proof (induction "B - f m" arbitrary: m rule: less_induct)
    case less
    show ?case
    proof (cases "\<forall>k\<ge>m. f k = f m")
      case True
      then show ?thesis by blast
    next
      case False
      then obtain k where k: "m \<le> k" "f k \<noteq> f m" by blast
      with le [of m k] have "f m < f k" by simp
      with bound have "B - f k < B - f m" by (metis diff_less_mono2 le_less_trans not_le)
      from less [OF this] obtain K where "k \<le> K" "\<forall>j\<ge>K. f j = f K" by blast
      with k(1) show ?thesis by (meson order_trans)
    qed
  qed
  then show ?thesis by blast
qed

text \<open>
  A loop that never leaves has, from some pass on, only passes that add nothing and see
  the scroll extent change; and the other way round.
\<close>

lemma never_left_iff_stuck:
  "(\<forall>k. trajectory w fd u limit h0 k \<noteq> None) \<longleftrightarrow> (\<exists>K. \<forall>k\<ge>K. stuck w fd u limit h0 k)"
proof
  assume all: "\<forall>k. trajectory w fd u limit h0 k \<noteq> None"
  define st where "st k = the (trajectory w fd u limit h0 k)" for k
  define f where "f k = length (fst (st k))" for k
  have st: "trajectory w fd u limit h0 k = Some (fst (st k), snd (st k))" for k
    using all by (auto simp: st_def)
  have step: "int (length (fst (st k))) < limit \<and>
      loop_body w u limit (fd k) (fst (st k)) (snd (st k)) = Continue (fst (st (Suc k))) (snd (st (Suc k)))"
    for k
    using st [of k] st [of "Suc k"] unfolding trajectory_Suc_Some by auto
  have mono: "\<forall>k. f k \<le> f (Suc k)"
    using step loop_body_Continue_grows unfolding f_def by blast
  have bound: "\<forall>k. f k \<le> nat limit"
  proof
    fix k
    from step [of k] have "int (length (fst (st k))) < limit" by blast
    then show "f k \<le> nat limit" by (simp add: f_def)
  qed
  from bounded_mono_settles [OF mono bound] obtain K where K: "\<forall>k\<ge>K. f k = f K" by blast
  have "stuck w fd u limit h0 k" if "K \<le> k" for k
  proof -
    from K that have a: "f k = f K" by blast
    from K that have b: "f (Suc k) = f K" by (blast intro: le_SucI)
    from a b have "length (fst (st (Suc k))) = length (fst (st k))" by (simp only: f_def)
    with step [of k] loop_body_Continue_grows
    have "fst (st (Suc k)) = fst (st k) \<and> snd (st (Suc k)) \<noteq> snd (st k)" by blast
    with st [of k] st [of "Suc k"] show ?thesis
      by (simp add: stuck_def case_prod_beta del: trajectory.simps)
  qed
  then show "\<exists>K. \<forall>k\<ge>K. stuck w fd u limit h0 k" by blast
next
  assume "\<exists>K. \<forall>k\<ge>K. stuck w fd u limit h0 k"
  then obtain K where K: "\<forall>k\<ge>K. stuck w fd u limit h0 k" by blast
  show "\<forall>k. trajectory w fd u limit h0 k \<noteq> None"
  proof (rule allI, rule notI)
    fix k
    assume "trajectory w fd u limit h0 k = None"
    with trajectory_None_mono [of k "max K k" w fd u limit h0]
    have "trajectory w fd u limit h0 (max K k) = None" by simp
    moreover from K have "stuck w fd u limit h0 (max K k)" by simp
    ultimately show False by (simp add: stuck_def del: trajectory.simps)
  qed
qed

lemma collect_None_iff_stuck:
  "collect w fd u limit 0 [] h0 = None \<longleftrightarrow> (\<exists>K. \<forall>k\<ge>K. stuck w fd u limit h0 k)"
  by (simp only: collect_None_iff_never_left never_left_iff_stuck)

text \<open>Two sufficient conditions on the feed alone.\<close>

lemma collect_returns_if_extent_repeats:
  assumes "\<forall>K. \<exists>k\<ge>K. height (fd (Suc k)) = height (fd k)"
  shows "\<exists>r. collect w fd u limit 0 [] h0 = Some r"
proof (rule ccontr)
  assume "\<not> (\<exists>r. collect w fd u limit 0 [] h0 = Some r)"
  then have "collect w fd u limit 0 [] h0 = None" by auto
  then obtain K where K: "\<forall>k\<ge>K. stuck w fd u limit h0 k"
    unfolding collect_None_iff_stuck by blast
  from assms obtain k where k: "K \<le> k" "height (fd (Suc k)) = height (fd k)" by blast
  from K k(1) have s0: "stuck w fd u limit h0 k" and s1: "stuck w fd u limit h0 (Suc k)" by simp_all
  from s0 obtain ts h where t0: "trajectory w fd u limit h0 k = Some (ts, h)"
    by (auto simp: stuck_def split: option.splits)
  from s1 obtain ts1 h1 ts2 h2 where
    t1: "trajectory w fd u limit h0 (Suc k) = Some (ts1, h1)" and
    t2: "trajectory w fd u limit h0 (Suc (Suc k)) = Some (ts2, h2)" and ne: "h2 \<noteq> h1"
    by (auto simp: stuck_def split: option.splits)
  from t1 t0 have "loop_body w u limit (fd k) ts h = Continue ts1 h1"
    unfolding trajectory_Suc_Some by auto
  from loop_body_Continue_scan [OF this] have a: "height (fd k) = Inr h1" by blast
  from t2 t1 have "loop_body w u limit (fd (Suc k)) ts1 h1 = Continue ts2 h2"
    unfolding trajectory_Suc_Some by auto
  from loop_body_Continue_scan [OF this] have "height (fd (Suc k)) = Inr h2" by blast
  with a k(2) ne show False by simp
qed




section \<open>The run as a whole\<close>

lemma save_and_return_cases:
  "save_and_return env out tr ts =
     (Inr ts, tr @ [Quit, Open_file out ''w'' ''utf-8'', Json_dump ts False 4]) \<and>
     open_file env = None \<and> utf8_encode (json_dumps 4 ts) \<noteq> None \<and> write_file env = None
   \<or> (\<exists>e. save_and_return env out tr ts = (Inl e, tr @ [Quit, Open_file out ''w'' ''utf-8''])
        \<and> open_file env = Some e)
   \<or> (\<exists>e. save_and_return env out tr ts =
          (Inl e, tr @ [Quit, Open_file out ''w'' ''utf-8'', Json_dump ts False 4])
        \<and> open_file env = None \<and> utf8_encode (json_dumps 4 ts) \<noteq> None \<and> write_file env = Some e)
   \<or> save_and_return env out tr ts =
       (Inl UnicodeEncodeError, tr @ [Quit, Open_file out ''w'' ''utf-8'', Json_dump ts False 4])
     \<and> open_file env = None \<and> utf8_encode (json_dumps 4 ts) = None"
  by (auto simp: save_and_return_def split: option.splits)

lemma scrape_Inr_collect:
  "scrape_user_tweets w env u limit out hl = Some (Inr r, tr) \<Longrightarrow>
     r = [] \<or> (\<exists>h. collect w (feed env) u limit 0 [] h = Some (Inr r))"
  by (auto simp: scrape_user_tweets_def save_and_return_def Let_def
      split: option.splits sum.splits if_splits)



text \<open>An error of the engine after the driver has started reaches the caller.\<close>

lemma session_error_propagates:
  "chrome env = None \<Longrightarrow> get env = Some e \<Longrightarrow>
     scrape_user_tweets w env u limit out hl =
       Some (Inl e, [Chrome hl, Get (''https://twitter.com/'' @ u)])"
  "chrome env = None \<Longrightarrow> get env = None \<Longrightarrow> wait env = None \<Longrightarrow> first_height env = Inr h \<Longrightarrow>
     collect w (feed env) u limit 0 [] h = Some (Inl e) \<Longrightarrow>
     scrape_user_tweets w env u limit out hl =
       Some (Inl e, [Chrome hl, Get (''https://twitter.com/'' @ u), Wait_until])"
  by (simp_all add: scrape_user_tweets_def)

section \<open>The text and the bytes of the output file\<close>











lemma utf8_encode_defined:
  "(\<forall>c\<in>set t. 0 \<le> c \<and> c < 1114112 \<and> \<not> (55296 \<le> c \<and> c \<le> 57343)) \<Longrightarrow>
     \<exists>bs. utf8_encode t = Some bs"
  by (induction t) (auto simp: utf8_char_def)

section \<open>Sample runs\<close>

lemma sample_extract:
  "extract_tweet latin1_word ''u'' [] (Present sample_article) = Inr (Some sample_tweet)"
  by code_simp

lemma steady_run:
  "scrape_user_tweets latin1_word steady_session ''u'' 5 None True =
     Some (Inr [sample_tweet],
       [Chrome True, Get ''https://twitter.com/u'', Wait_until, Quit,
        Open_file ''u_tweets.json'' ''w'' ''utf-8'', Json_dump [sample_tweet] False 4])"
  by code_simp

lemma steady_second_pass:
  "collect latin1_word steady_feed ''u'' 5 1 [sample_tweet] 100 = Some (Inr [sample_tweet])"
  by code_simp




text \<open>The text written for the sample item, as the \<open>json\<close> module lays it out.\<close>

lemma json_dumps_sample:
  \<open>json_dumps 4 [sample_tweet] = lines_text
     [''['',
      ''    {'',
      ''        "id": "1",'',
      ''        "date": null,'',
      ''        "content": "Loving #rust and #go, cc @alice",'',
      ''        "url": "https://twitter.com/u/status/1",'',
      ''        "replyCount": 0,'',
      ''        "retweetCount": 0,'',
      ''        "likeCount": 0,'',
      ''        "hashtags": ['',
      ''            "rust",'',
      ''            "go"'',
      ''        ],'',
      ''        "mentionedUsers": ['',
      ''            "alice"'',
      ''        ],'',
      ''        "has_media": false'',
      ''    }'',
      '']'']\<close>
  by code_simp

lemma json_string_sample:
  "json_string [34, 92, 10, 1, 31, 127, 233, 8364] =
     [34, 92, 34, 92, 92, 92, 110, 92, 117, 48, 48, 48, 49, 92, 117, 48, 48, 49, 102,
      127, 233, 8364, 34]"
  "utf8_encode [97, 233, 8364, 128512] = Some [97, 195, 169, 226, 130, 172, 240, 159, 152, 128]"
  "utf8_encode [55357] = None"
  by code_simp+

section \<open>The claims\<close>

text \<open>
  Claim C1, amended. The returned sequence never has more than \<open>limit\<close> items when
  \<open>limit\<close> is not negative; under a negative \<open>limit\<close> the loop is not entered and the
  returned sequence is empty, so that its length is at most the larger of \<open>limit\<close> and 0.
\<close>

theorem result_length_bounded:
  "scrape_user_tweets w env u limit out hl = Some (Inr r, tr) \<Longrightarrow> int (length r) \<le> max 0 limit"
proof -
  assume run: "scrape_user_tweets w env u limit out hl = Some (Inr r, tr)"
  from scrape_Inr_collect [OF run] show ?thesis
  proof
    assume "r = []"
    then show ?thesis by simp
  next
    assume "\<exists>h. collect w (feed env) u limit 0 [] h = Some (Inr r)"
    then obtain h where "collect w (feed env) u limit 0 [] h = Some (Inr r)" ..
    then show ?thesis by (rule collect_length) simp
  qed
qed

theorem result_length_bounded_witness:
  "scrape_user_tweets latin1_word steady_session ''u'' 5 None True =
     Some (Inr [sample_tweet],
       [Chrome True, Get ''https://twitter.com/u'', Wait_until, Quit,
        Open_file ''u_tweets.json'' ''w'' ''utf-8'', Json_dump [sample_tweet] False 4])
   \<and> int (length [sample_tweet]) \<le> max 0 5"
proof (rule conjI)
  show "scrape_user_tweets latin1_word steady_session ''u'' 5 None True =
     Some (Inr [sample_tweet],
       [Chrome True, Get ''https://twitter.com/u'', Wait_until, Quit,
        Open_file ''u_tweets.json'' ''w'' ''utf-8'', Json_dump [sample_tweet] False 4])"
    by (rule steady_run)
  show "int (length [sample_tweet]) \<le> max 0 5"
    by (rule result_length_bounded [OF steady_run])
qed

text \<open>
  With the limit \<open>-1\<close> the run returns the empty sequence, whose length 0 exceeds the
  limit.
\<close>

theorem negative_limit_exceeded:
  "scrape_user_tweets latin1_word steady_session ''u'' (- 1) None True =
     Some (Inr [],
       [Chrome True, Get ''https://twitter.com/u'', Wait_until, Quit,
        Open_file ''u_tweets.json'' ''w'' ''utf-8'', Json_dump [] False 4])
   \<and> \<not> int (length ([] :: tweet list)) \<le> - 1"
  by code_simp

text \<open>
  Claim C2. The identifiers of the accumulated items are pairwise distinct at every
  point: the scan of one pass keeps them distinct from any state that has them distinct,
  so does the loop, and the sequence a run returns has them distinct.
\<close>

theorem collected_ids_distinct:
  "(distinct (map tweet_id ts) \<longrightarrow>
      distinct (map tweet_id (fst (scan_articles w u limit arts ts k)))) \<and>
   (distinct (map tweet_id ts) \<and> collect w fd u limit n ts h = Some (Inr r) \<longrightarrow>
      distinct (map tweet_id r)) \<and>
   (scrape_user_tweets w env u limit out hl = Some (Inr res, tr) \<longrightarrow>
      distinct (map tweet_id res))"
proof (intro conjI impI)
  assume "distinct (map tweet_id ts)"
  then show "distinct (map tweet_id (fst (scan_articles w u limit arts ts k)))"
    by (rule scan_articles_distinct)
next
  assume "distinct (map tweet_id ts) \<and> collect w fd u limit n ts h = Some (Inr r)"
  then show "distinct (map tweet_id r)"
    using collect_distinct by blast
next
  assume run: "scrape_user_tweets w env u limit out hl = Some (Inr res, tr)"
  from scrape_Inr_collect [OF run] show "distinct (map tweet_id res)"
  proof
    assume "res = []"
    then show ?thesis by simp
  next
    assume "\<exists>h. collect w (feed env) u limit 0 [] h = Some (Inr res)"
    then obtain h where "collect w (feed env) u limit 0 [] h = Some (Inr res)" ..
    then show ?thesis by (rule collect_distinct) simp
  qed
qed

theorem collected_ids_distinct_witness:
  "distinct (map tweet_id [sample_tweet]) \<and>
   collect latin1_word steady_feed ''u'' 5 1 [sample_tweet] 100 = Some (Inr [sample_tweet]) \<and>
   scrape_user_tweets latin1_word steady_session ''u'' 5 None True =
     Some (Inr [sample_tweet],
       [Chrome True, Get ''https://twitter.com/u'', Wait_until, Quit,
        Open_file ''u_tweets.json'' ''w'' ''utf-8'', Json_dump [sample_tweet] False 4]) \<and>
   distinct (map tweet_id
     (fst (scan_articles latin1_word ''u'' 5 [Present sample_article] [sample_tweet] 0)))"
proof -
  have d: "distinct (map tweet_id [sample_tweet])" by simp
  from collected_ids_distinct
    [of "[sample_tweet]" latin1_word "''u''" 5 "[Present sample_article]" 0] d
  have "distinct (map tweet_id
     (fst (scan_articles latin1_word ''u'' 5 [Present sample_article] [sample_tweet] 0)))"
    by blast
  with d steady_second_pass steady_run show ?thesis by blast
qed







text \<open>
  Claim C5. The session is to be released exactly once before an error after its
  acquisition reaches the caller. When the navigation raises, and when \<open>find_elements\<close>
  raises inside the loop, the error leaves \<open>scrape_user_tweets\<close> and \<open>driver.quit()\<close> has
  not been called: only the timeout of the first wait and the end of the loop call it.
\<close>

theorem crash_leaves_session_open:
  "scrape_user_tweets latin1_word crash_session ''alice'' 50 None True =
     Some (Inl WebDriverException, [Chrome True, Get ''https://twitter.com/alice'']) \<and>
   scrape_user_tweets latin1_word broken_session ''alice'' 50 None True =
     Some (Inl WebDriverException, [Chrome True, Get ''https://twitter.com/alice'', Wait_until])"
  by code_simp

text \<open>
  Claim C6. When the driver starts, the navigation returns and the first wait ends in
  its timeout, the run returns the empty sequence, raises nothing, and has released the
  session before it returns.
\<close>

theorem timeout_returns_empty:
  "chrome env = None \<Longrightarrow> get env = None \<Longrightarrow> wait env = Some TimeoutException \<Longrightarrow>
     scrape_user_tweets w env u limit out hl =
       Some (Inr [], [Chrome hl, Get (''https://twitter.com/'' @ u), Wait_until, Quit])"
  by (simp add: scrape_user_tweets_def)

theorem timeout_returns_empty_witness:
  "chrome timeout_session = None \<and> get timeout_session = None \<and>
   wait timeout_session = Some TimeoutException \<and>
   scrape_user_tweets latin1_word timeout_session ''u'' 5 None True =
     Some (Inr [], [Chrome True, Get (''https://twitter.com/'' @ ''u''), Wait_until, Quit])"
proof -
  have a: "chrome timeout_session = None" and b: "get timeout_session = None"
    and c: "wait timeout_session = Some TimeoutException"
    by (simp_all add: timeout_session_def steady_session_def)
  from timeout_returns_empty [OF a b c] a b c show ?thesis by blast
qed

text \<open>
  Claim C8. A timestamp that cannot be had is to leave the item in the result with a
  null date. The item whose \<open>time\<close> element has no \<open>datetime\<close> attribute raises
  \<open>AttributeError\<close> in the timestamp block, which catches two other exceptions only, and
  the pass drops the whole item.
\<close>

theorem undated_item_dropped:
  "extract_tweet w ''u'' [] (Present undated_article) = Inl AttributeError \<and>
   scan_articles w ''u'' 5 [Present undated_article] [] 0 = ([], 0)"
proof -
  have f: "find_tweet_id [''/status/1''] = Some ''1''" by code_simp
  have "extract_tweet w ''u'' [] (Present undated_article) = Inl AttributeError"
    by (simp add: extract_tweet_def undated_article_def sample_article_def f timestamp_of_def)
  then show ?thesis by simp
qed

text \<open>
  Claim C9. For every item text, whatever its code points, and for the word class of
  \<open>re\<close>, which holds neither marker: the hashtags and the mentions of an item are the
  words that follow the marker at each place of the text where the marker stands before a
  word character, in the order of the places and with repetitions kept. With the word
  class as it is on the code points below 256, the sample text gives the tags \<open>rust\<close>,
  \<open>go\<close> and the mention \<open>alice\<close>.
\<close>

theorem tags_and_mentions:
  "(\<not> w hash_sign \<and> \<not> w at_sign \<longrightarrow>
      findall_marker w hash_sign text = spec_matches w hash_sign text \<and>
      findall_marker w at_sign text = spec_matches w at_sign text \<and>
      (extract_tweet w username tweets_list el = Inr (Some t) \<longrightarrow>
         hashtags t = spec_matches w hash_sign (content t) \<and>
         mentionedUsers t = spec_matches w at_sign (content t))) \<and>
   ((\<forall>n. 0 \<le> n \<and> n < 256 \<longrightarrow> w n = latin1_word n) \<longrightarrow>
      findall_marker w hash_sign (cps ''Loving #rust and #go, cc @alice'') =
        [cps ''rust'', cps ''go''] \<and>
      findall_marker w at_sign (cps ''Loving #rust and #go, cc @alice'') = [cps ''alice''] \<and>
      findall_marker w hash_sign (cps ''#a #b #a'') = [cps ''a'', cps ''b'', cps ''a''])"
proof (intro conjI impI)
  assume m: "\<not> w hash_sign \<and> \<not> w at_sign"
  then show "findall_marker w hash_sign text = spec_matches w hash_sign text"
    by (simp add: findall_marker_spec)
  from m show "findall_marker w at_sign text = spec_matches w at_sign text"
    by (simp add: findall_marker_spec)
next
  assume m: "\<not> w hash_sign \<and> \<not> w at_sign"
    and e: "extract_tweet w username tweets_list el = Inr (Some t)"
  from extract_tweet_tags [OF e] m
  show "hashtags t = spec_matches w hash_sign (content t)"
    by (simp add: findall_marker_spec)
next
  assume m: "\<not> w hash_sign \<and> \<not> w at_sign"
    and e: "extract_tweet w username tweets_list el = Inr (Some t)"
  from extract_tweet_tags [OF e] m
  show "mentionedUsers t = spec_matches w at_sign (content t)"
    by (simp add: findall_marker_spec)
next
  assume l: "\<forall>n. 0 \<le> n \<and> n < 256 \<longrightarrow> w n = latin1_word n"
  have "findall_marker latin1_word hash_sign (cps ''Loving #rust and #go, cc @alice'') =
      [cps ''rust'', cps ''go'']"
    by code_simp
  then show "findall_marker w hash_sign (cps ''Loving #rust and #go, cc @alice'') =
      [cps ''rust'', cps ''go'']"
    by (simp only: findall_marker_latin1 [OF l])
next
  assume l: "\<forall>n. 0 \<le> n \<and> n < 256 \<longrightarrow> w n = latin1_word n"
  have "findall_marker latin1_word at_sign (cps ''Loving #rust and #go, cc @alice'') =
      [cps ''alice'']"
    by code_simp
  then show "findall_marker w at_sign (cps ''Loving #rust and #go, cc @alice'') = [cps ''alice'']"
    by (simp only: findall_marker_latin1 [OF l])
next
  assume l: "\<forall>n. 0 \<le> n \<and> n < 256 \<longrightarrow> w n = latin1_word n"
  have "findall_marker latin1_word hash_sign (cps ''#a #b #a'') = [cps ''a'', cps ''b'', cps ''a'']"
    by code_simp
  then show "findall_marker w hash_sign (cps ''#a #b #a'') = [cps ''a'', cps ''b'', cps ''a'']"
    by (simp only: findall_marker_latin1 [OF l])
qed

theorem tags_and_mentions_witness:
  "\<not> latin1_word hash_sign \<and> \<not> latin1_word at_sign \<and>
   \<not> cjk_word hash_sign \<and> \<not> cjk_word at_sign \<and>
   (\<forall>n. latin1_word n = latin1_word n) \<and>
   extract_tweet latin1_word ''u'' [] (Present sample_article) = Inr (Some sample_tweet) \<and>
   hashtags sample_tweet = spec_matches latin1_word hash_sign (content sample_tweet) \<and>
   mentionedUsers sample_tweet = spec_matches latin1_word at_sign (content sample_tweet) \<and>
   findall_marker latin1_word hash_sign (cps ''Loving #rust and #go, cc @alice'') =
     [cps ''rust'', cps ''go''] \<and>
   spec_matches cjk_word hash_sign [35, 26085, 26412, 32, 35, 97] = [[26085, 26412], [97]]"
proof -
  have m: "\<not> latin1_word hash_sign \<and> \<not> latin1_word at_sign"
    by (simp add: latin1_word_def hash_sign_def at_sign_def)
  have c: "\<not> cjk_word hash_sign \<and> \<not> cjk_word at_sign"
    by (simp add: cjk_word_def latin1_word_def hash_sign_def at_sign_def)
  have l: "\<forall>n. 0 \<le> n \<and> n < 256 \<longrightarrow> latin1_word n = latin1_word n" by simp
  note t1 = tags_and_mentions
    [of latin1_word "[]" "''u''" "[]" "Present sample_article" sample_tweet]
  note t2 = tags_and_mentions
    [of cjk_word "[35, 26085, 26412, 32, 35, 97]" "''u''" "[]" "Present sample_article"
      sample_tweet]
  from t1 m sample_extract
  have a: "hashtags sample_tweet = spec_matches latin1_word hash_sign (content sample_tweet) \<and>
      mentionedUsers sample_tweet = spec_matches latin1_word at_sign (content sample_tweet)"
    by blast
  from t1 l
  have b: "findall_marker latin1_word hash_sign (cps ''Loving #rust and #go, cc @alice'') =
      [cps ''rust'', cps ''go'']"
    by blast
  have "findall_marker cjk_word hash_sign [35, 26085, 26412, 32, 35, 97] = [[26085, 26412], [97]]"
    by code_simp
  with t2 c
  have d: "spec_matches cjk_word hash_sign [35, 26085, 26412, 32, 35, 97] = [[26085, 26412], [97]]"
    by simp
  from m c a b d sample_extract show ?thesis by simp
qed





end
